theory Spec2Isabelle
  imports Main "HOL-Library.Word" "HOL-Library.List_Lexorder" "HOL-Library.Char_ord"
begin

section \<open>Package types\<close>

text \<open>
  Go's \<^verbatim>\<open>int64\<close> values (balances, transaction indices) are only stored, compared and
  copied, never computed with; they are 64-bit words. Go's \<^verbatim>\<open>int\<close> values (the offset,
  the page limit, \<^verbatim>\<open>n_tx\<close>) are integers; the theorem on pagination bounds the offset
  below \<open>2 ^ 63\<close>, where the machine integer and the mathematical one agree.
\<close>

type_synonym int64 = "64 word"

record Transaction =
  Index :: int64
  Hash :: string
  Data :: string

record AddressData =
  Address :: string
  Balance :: int64
  NumTxs :: int
  Txs :: "Transaction list"

section \<open>The store: package data\<close>

subsection \<open>Tables and statements\<close>

text \<open>
  The two tables of \<^verbatim>\<open>Initialize\<close>. A wallet row is \<open>(address, balance)\<close>.
  The schema declares \<^verbatim>\<open>address TEXT PRIMARY KEY\<close> on wallet and
  \<^verbatim>\<open>tx_index TEXT PRIMARY KEY\<close> on transactions; the tables are kept as lists of rows
  and the primary keys are enforced by the statements, as the engine does, not by the type.
\<close>

record tx_row =
  col_tx_index :: int64
  col_hash :: string
  col_address :: string
  col_data :: string

record database =
  wallet :: "(string \<times> int64) list"
  transactions :: "tx_row list"

text \<open>The statements of the query list that write, with their bound parameters in order.\<close>

datatype stmt =
    insertAddressQuery string
  | removeAddressQuery string
  | removeTxQuery string
  | updateBalaceQuery int64 string
  | updateTxQuery int64 string string string

datatype query =
    checkAddressQuery string
  | getAllAddressesQuery

text \<open>
  What the engine does with a statement: the new tables and the number of rows affected,
  or \<open>None\<close> when the statement violates a constraint.
  \<^item> \<^verbatim>\<open>INSERT INTO wallet (address) VALUES (?)\<close>: a second row for the same address
    violates the primary key; the balance takes its default 0.
  \<^item> \<^verbatim>\<open>INSERT OR IGNORE INTO transactions ...\<close>: a row whose \<^verbatim>\<open>tx_index\<close> is already
    in the table is skipped and nothing is affected.
\<close>

fun exec :: "stmt \<Rightarrow> database \<Rightarrow> (database \<times> nat) option" where
  "exec (insertAddressQuery a) db =
     (if a \<in> fst ` set (wallet db) then None
      else Some (db\<lparr>wallet := wallet db @ [(a, 0)]\<rparr>, 1))"
| "exec (removeAddressQuery a) db =
     Some (db\<lparr>wallet := filter (\<lambda>r. fst r \<noteq> a) (wallet db)\<rparr>,
           length (filter (\<lambda>r. fst r = a) (wallet db)))"
| "exec (removeTxQuery a) db =
     Some (db\<lparr>transactions := filter (\<lambda>r. col_address r \<noteq> a) (transactions db)\<rparr>,
           length (filter (\<lambda>r. col_address r = a) (transactions db)))"
| "exec (updateBalaceQuery b a) db =
     Some (db\<lparr>wallet := map (\<lambda>r. if fst r = a then (fst r, b) else r) (wallet db)\<rparr>,
           length (filter (\<lambda>r. fst r = a) (wallet db)))"
| "exec (updateTxQuery i h a dat) db =
     (if i \<in> col_tx_index ` set (transactions db) then Some (db, 0)
      else Some (db\<lparr>transactions := transactions db @
                  [\<lparr>col_tx_index = i, col_hash = h, col_address = a, col_data = dat\<rparr>]\<rparr>, 1))"

subsection \<open>The connection, its failures, and transactions\<close>

text \<open>
  Every call into \<^verbatim>\<open>database/sql\<close> can return an error for reasons outside the tables
  (the file, a lock). The \<open>driver\<close> parameter says which calls do so.
\<close>

datatype call = Begin | Exec stmt | Query query | Commit

type_synonym driver = "call \<Rightarrow> bool"

definition no_faults :: driver where
  "no_faults = (\<lambda>c. False)"

text \<open>
  A \<^verbatim>\<open>*sql.Tx\<close>: the tables as they were at \<^verbatim>\<open>Begin\<close> and the working copy the
  statements of the transaction act on. \<^verbatim>\<open>Commit\<close> makes the working copy the stored
  tables, \<^verbatim>\<open>Rollback\<close> keeps the tables of \<^verbatim>\<open>Begin\<close>; a commit that fails leaves them
  too. One connection writes at a time.
\<close>

record sqltx =
  base :: database
  work :: database

definition conn_Begin :: "driver \<Rightarrow> database \<Rightarrow> sqltx option" where
  "conn_Begin d db = (if d Begin then None else Some \<lparr>base = db, work = db\<rparr>)"

definition conn_Exec :: "driver \<Rightarrow> stmt \<Rightarrow> database \<Rightarrow> (database \<times> nat) option" where
  "conn_Exec d s db = (if d (Exec s) then None else exec s db)"

definition tx_Exec :: "driver \<Rightarrow> stmt \<Rightarrow> sqltx \<Rightarrow> (sqltx \<times> nat) option" where
  "tx_Exec d s t =
     (case conn_Exec d s (work t) of
        None \<Rightarrow> None
      | Some (w, n) \<Rightarrow> Some (t\<lparr>work := w\<rparr>, n))"

definition tx_Commit :: "driver \<Rightarrow> sqltx \<Rightarrow> database option" where
  "tx_Commit d t = (if d Commit then None else Some (work t))"

definition tx_Rollback :: "sqltx \<Rightarrow> database" where
  "tx_Rollback t = base t"

subsection \<open>Errors\<close>

text \<open>One constructor for each place where the source builds an error value.\<close>

datatype error =
    InvalidAddressLength
  | CheckAddressFailed
  | AddAddressFailed
  | InsertAddressFailed
  | BeginFailed
  | RemoveAddressFailed
  | RemoveTransactionsFailed
  | CommitFailed
  | UpdateBalanceFailed
  | UpdateTransactionsFailed int64
  | GetAllAddressesFailed
  | InvalidEffectedRows string nat
  | FetchFailed
  | BadStatusCode nat
  | ReadBodyFailed
  | ParseBodyFailed
  | ParseTransactionFailed

subsection \<open>The operations of DatabaseConnection\<close>

text \<open>
  \<^verbatim>\<open>validateEffectedRows\<close>: anything but one row is an error. The driver's
  \<^verbatim>\<open>RowsAffected\<close> is taken to return the count.
\<close>

definition validateEffectedRows :: "nat \<Rightarrow> string \<Rightarrow> error option" where
  "validateEffectedRows numRows operation =
     (if numRows \<noteq> 1 then Some (InvalidEffectedRows operation numRows) else None)"

definition StartTransaction :: "driver \<Rightarrow> database \<Rightarrow> error + sqltx" where
  "StartTransaction d db =
     (case conn_Begin d db of None \<Rightarrow> Inl BeginFailed | Some t \<Rightarrow> Inr t)"

text \<open>\<^verbatim>\<open>CommitTransaction\<close> returns the error, if any, and the tables stored afterwards.\<close>

definition CommitTransaction :: "driver \<Rightarrow> sqltx \<Rightarrow> error option \<times> database" where
  "CommitTransaction d t =
     (case tx_Commit d t of None \<Rightarrow> (Some CommitFailed, tx_Rollback t) | Some db \<Rightarrow> (None, db))"

definition CheckAddress :: "driver \<Rightarrow> database \<Rightarrow> string \<Rightarrow> error + bool" where
  "CheckAddress d db a =
     (if d (Query (checkAddressQuery a)) then Inl CheckAddressFailed
      else Inr (a \<in> fst ` set (wallet db)))"

text \<open>
  \<^verbatim>\<open>SELECT address FROM wallet\<close> is answered from the index of the primary key: the
  addresses come in the byte order of their text, whatever the order of insertion.
\<close>

definition GetAllAddresses :: "driver \<Rightarrow> database \<Rightarrow> error + string list" where
  "GetAllAddresses d db =
     (if d (Query getAllAddressesQuery) then Inl GetAllAddressesFailed
      else Inr (sort (map fst (wallet db))))"

definition data_AddAddress :: "driver \<Rightarrow> database \<Rightarrow> string \<Rightarrow> error option \<times> database" where
  "data_AddAddress d db a =
     (case conn_Exec d (insertAddressQuery a) db of
        None \<Rightarrow> (Some InsertAddressFailed, db)
      | Some (db', n) \<Rightarrow> (validateEffectedRows n ''insertion'', db'))"

text \<open>
  \<^verbatim>\<open>RemoveAddress\<close> opens its own transaction and defers \<^verbatim>\<open>tx.Rollback()\<close>: every
  return before the commit rolls back.
\<close>

definition data_RemoveAddress :: "driver \<Rightarrow> database \<Rightarrow> string \<Rightarrow> error option \<times> database" where
  "data_RemoveAddress d db a =
     (case conn_Begin d db of
        None \<Rightarrow> (Some BeginFailed, db)
      | Some t \<Rightarrow>
          (case tx_Exec d (removeAddressQuery a) t of
             None \<Rightarrow> (Some RemoveAddressFailed, tx_Rollback t)
           | Some (t1, n) \<Rightarrow>
               (case validateEffectedRows n ''address removal'' of
                  Some e \<Rightarrow> (Some e, tx_Rollback t1)
                | None \<Rightarrow>
                    (case tx_Exec d (removeTxQuery a) t1 of
                       None \<Rightarrow> (Some RemoveTransactionsFailed, tx_Rollback t1)
                     | Some (t2, m) \<Rightarrow>
                         (case tx_Commit d t2 of
                            None \<Rightarrow> (Some CommitFailed, tx_Rollback t2)
                          | Some db' \<Rightarrow> (None, db'))))))"

text \<open>
  \<^verbatim>\<open>UpdateBalance\<close> and \<^verbatim>\<open>UpdateTransactions\<close> act on the caller's transaction and
  return the error, if any, with the transaction as they leave it. \<^verbatim>\<open>UpdateTransactions\<close>
  drops the result of each \<^verbatim>\<open>Exec\<close> and looks at its error only.
\<close>

definition UpdateBalance :: "driver \<Rightarrow> sqltx \<Rightarrow> string \<Rightarrow> int64 \<Rightarrow> error option \<times> sqltx" where
  "UpdateBalance d t a b =
     (case tx_Exec d (updateBalaceQuery b a) t of
        None \<Rightarrow> (Some UpdateBalanceFailed, t)
      | Some (t', n) \<Rightarrow> (validateEffectedRows n ''balance update'', t'))"

fun UpdateTransactions_loop ::
  "driver \<Rightarrow> sqltx \<Rightarrow> string \<Rightarrow> Transaction list \<Rightarrow> error option \<times> sqltx" where
  "UpdateTransactions_loop d t a [] = (None, t)"
| "UpdateTransactions_loop d t a (x # xs) =
     (case tx_Exec d (updateTxQuery (Index x) (Hash x) a (Data x)) t of
        None \<Rightarrow> (Some (UpdateTransactionsFailed (Index x)), t)
      | Some (t', n) \<Rightarrow> UpdateTransactions_loop d t' a xs)"

definition UpdateTransactions :: "driver \<Rightarrow> sqltx \<Rightarrow> AddressData \<Rightarrow> error option \<times> sqltx" where
  "UpdateTransactions d t data = UpdateTransactions_loop d t (Address data) (Txs data)"

section \<open>The wallet manager: package cointracker\<close>

subsection \<open>The explorer's answers\<close>

text \<open>
  A \<^verbatim>\<open>json.RawMessage\<close> is kept as its bytes together with the JSON value the bytes
  denote. Go decodes a JSON number met under \<^verbatim>\<open>any\<close> to a \<^verbatim>\<open>float64\<close>, and the only use
  the source makes of it is the conversion \<^verbatim>\<open>int64(...)\<close>; a number is kept as the
  \<^verbatim>\<open>int64\<close> that this conversion yields.
\<close>

datatype json =
    JNull
  | JBool bool
  | JNumber int64
  | JString string
  | JArray "json list"
  | JObject "(string \<times> json) list"

record RawMessage =
  raw :: string
  parsed :: json

text \<open>The fields of \<^verbatim>\<open>RawAddressResponse\<close> that the source reads.\<close>

record RawAddressResponse =
  resp_Address :: string
  resp_NTx :: int
  resp_FinalBalance :: int64
  resp_Txs :: "RawMessage list"

text \<open>
  One \<^verbatim>\<open>http.Get\<close>: it fails, or there is a response with a status code and a body; the
  body cannot be read, or does not decode into a \<^verbatim>\<open>RawAddressResponse\<close>, or does. The
  explorer is a function of the address, the limit and the offset of the URL.
\<close>

datatype body = ReadError | Unparseable | Decoded RawAddressResponse

datatype http_result = GetError | Response nat body

type_synonym api = "string \<Rightarrow> int \<Rightarrow> int \<Rightarrow> http_result"

text \<open>
  A call ends with a value, with a returned error, or with a run-time panic. A panic is not
  an error value: nothing in the source recovers from one, and it ends the process.
\<close>

datatype panic = NilDereference | InterfaceConversion

datatype failure = Err error | Panic panic

subsection \<open>fetchAddressData\<close>

text \<open>
  \<^verbatim>\<open>json.Unmarshal(rawTx, &txMap)\<close> with \<^verbatim>\<open>txMap\<close> a \<^verbatim>\<open>map[string]any\<close>: an object
  gives its members (the last of two equal keys wins), \<^verbatim>\<open>null\<close> leaves the map nil, which
  reads as empty, and any other value is an error.
\<close>

fun unmarshal_map :: "json \<Rightarrow> (string \<rightharpoonup> json) option" where
  "unmarshal_map (JObject kvs) = Some (map_of (rev kvs))"
| "unmarshal_map JNull = Some Map.empty"
| "unmarshal_map _ = None"

text \<open>
  The body of the loop over \<^verbatim>\<open>response.Txs\<close>. The type assertions
  \<^verbatim>\<open>txMap["tx_index"].(float64)\<close> and \<^verbatim>\<open>txMap["hash"].(string)\<close> are of the
  one-result form: on a missing key or a value of another type they panic.
\<close>

definition parseRawTx :: "RawMessage \<Rightarrow> failure + Transaction" where
  "parseRawTx rawTx =
     (case unmarshal_map (parsed rawTx) of
        None \<Rightarrow> Inl (Err ParseTransactionFailed)
      | Some txMap \<Rightarrow>
          (case txMap ''tx_index'' of
             Some (JNumber i) \<Rightarrow>
               (case txMap ''hash'' of
                  Some (JString h) \<Rightarrow> Inr \<lparr>Index = i, Hash = h, Data = raw rawTx\<rparr>
                | _ \<Rightarrow> Inl (Panic InterfaceConversion))
           | _ \<Rightarrow> Inl (Panic InterfaceConversion)))"

fun parseRawTxs :: "RawMessage list \<Rightarrow> Transaction list \<Rightarrow> failure + Transaction list" where
  "parseRawTxs [] allTxs = Inr allTxs"
| "parseRawTxs (rawTx # rest) allTxs =
     (case parseRawTx rawTx of
        Inl f \<Rightarrow> Inl f
      | Inr t \<Rightarrow> parseRawTxs rest (allTxs @ [t]))"

definition limit :: int where
  "limit = 50"

text \<open>
  The \<^verbatim>\<open>for\<close> loop of \<^verbatim>\<open>fetchAddressData\<close>. Nothing bounds the number of pages, so the
  loop is a partial function: \<open>None\<close> is a run that never returns. A run that ends gives
  the offsets it requested, in order, and the result. The pauses between requests are not
  part of the value.
\<close>

partial_function (option) fetchLoop ::
  "api \<Rightarrow> string \<Rightarrow> int \<Rightarrow> AddressData option \<Rightarrow> Transaction list \<Rightarrow> int list
     \<Rightarrow> (int list \<times> (failure + AddressData)) option" where
  "fetchLoop explorer address offset data allTxs reqs =
     (case explorer address limit offset of
        GetError \<Rightarrow> Some (reqs @ [offset], Inl (Err FetchFailed))
      | Response status b \<Rightarrow>
          if status \<noteq> 200 then Some (reqs @ [offset], Inl (Err (BadStatusCode status)))
          else
            (case b of
               ReadError \<Rightarrow> Some (reqs @ [offset], Inl (Err ReadBodyFailed))
             | Unparseable \<Rightarrow> Some (reqs @ [offset], Inl (Err ParseBodyFailed))
             | Decoded response \<Rightarrow>
                 (let d = (case data of
                             None \<Rightarrow> \<lparr>Address = resp_Address response,
                                      Balance = resp_FinalBalance response,
                                      NumTxs = resp_NTx response, Txs = []\<rparr>
                           | Some d0 \<Rightarrow> d0)
                  in case parseRawTxs (resp_Txs response) allTxs of
                       Inl f \<Rightarrow> Some (reqs @ [offset], Inl f)
                     | Inr allTxs' \<Rightarrow>
                         if int (length (resp_Txs response)) < limit
                            \<or> offset + limit \<ge> resp_NTx response
                         then Some (reqs @ [offset], Inr (d\<lparr>Txs := allTxs'\<rparr>))
                         else fetchLoop explorer address (offset + limit) (Some d) allTxs'
                                (reqs @ [offset]))))"

definition fetchAddressData ::
  "api \<Rightarrow> string \<Rightarrow> (int list \<times> (failure + AddressData)) option" where
  "fetchAddressData explorer address = fetchLoop explorer address 0 None [] []"

subsection \<open>AddAddress and RemoveAddress\<close>

text \<open>
  \<^verbatim>\<open>AddAddress\<close> returns the boolean \<^verbatim>\<open>exists\<close> or an error, the stored tables,
  and the background fetch: after a successful insert it launches
  \<^verbatim>\<open>go w.fetchAddressData(address)\<close>. The third component is \<open>None\<close> when no fetch
  is launched and otherwise the run of that fetch. The fetch runs beside the caller, writes
  nothing to the store, and its result is dropped; but nothing recovers from a panic in it,
  so a fetch that panics ends the process, at some moment after the launch.
\<close>

type_synonym background = "(int list \<times> (failure + AddressData)) option option"

definition Wallet_AddAddress ::
  "driver \<Rightarrow> api \<Rightarrow> database \<Rightarrow> string \<Rightarrow> (error + bool) \<times> database \<times> background" where
  "Wallet_AddAddress d explorer db a =
     (if length a = 0 \<or> length a > 42 then (Inl InvalidAddressLength, db, None)
      else
        (case CheckAddress d db a of
           Inl e \<Rightarrow> (Inl e, db, None)
         | Inr exists \<Rightarrow>
             if exists then (Inr exists, db, None)
             else
               (case data_AddAddress d db a of
                  (Some e, db') \<Rightarrow> (Inl AddAddressFailed, db', None)
                | (None, db') \<Rightarrow> (Inr False, db', Some (fetchAddressData explorer a)))))"


text \<open>\<^verbatim>\<open>RemoveAddress\<close> returns the boolean \<^verbatim>\<open>exists\<close> or an error, and the stored tables.\<close>

definition Wallet_RemoveAddress :: "driver \<Rightarrow> database \<Rightarrow> string \<Rightarrow> (error + bool) \<times> database" where
  "Wallet_RemoveAddress d db a =
     (case CheckAddress d db a of
        Inl e \<Rightarrow> (Inl e, db)
      | Inr exists \<Rightarrow>
          if \<not> exists then (Inr exists, db)
          else
            (case data_RemoveAddress d db a of
               (Some e, db') \<Rightarrow> (Inl e, db')
             | (None, db') \<Rightarrow> (Inr exists, db')))"

subsection \<open>SyncWallets\<close>

datatype log_entry =
    LogGetAddresses error
  | LogBadFetch string error
  | LogBegin error
  | LogBalance string error
  | LogTransactions string error
  | LogCommit error
  | LogSuccess

text \<open>\<^verbatim>\<open>make([]*types.AddressData, n)\<close>: \<open>n\<close> nil pointers.\<close>

definition make_slice :: "nat \<Rightarrow> AddressData option list" where
  "make_slice n = replicate n None"

text \<open>
  The first loop of \<^verbatim>\<open>SyncWallets\<close>: one \<^verbatim>\<open>fetchAddressData\<close> for each address, in
  order. A returned error is logged and the loop goes on; a result is appended. The value
  is the slice and the log, or the panic that ended the run, together with the requests
  made, each with its address.
\<close>

fun collect ::
  "api \<Rightarrow> string list \<Rightarrow> AddressData option list \<Rightarrow> log_entry list \<Rightarrow> (string \<times> int) list
     \<Rightarrow> ((panic + AddressData option list) \<times> log_entry list \<times> (string \<times> int) list) option" where
  "collect explorer [] results lg reqs = Some (Inr results, lg, reqs)"
| "collect explorer (address # rest) results lg reqs =
     (case fetchAddressData explorer address of
        None \<Rightarrow> None
      | Some (offs, Inl (Panic p)) \<Rightarrow> Some (Inl p, lg, reqs @ map (Pair address) offs)
      | Some (offs, Inl (Err e)) \<Rightarrow>
          collect explorer rest results (lg @ [LogBadFetch address e])
            (reqs @ map (Pair address) offs)
      | Some (offs, Inr d) \<Rightarrow>
          collect explorer rest (results @ [Some d]) lg (reqs @ map (Pair address) offs))"

text \<open>
  The second loop of \<^verbatim>\<open>SyncWallets\<close>, over \<^verbatim>\<open>results\<close>. It reads
  \<^verbatim>\<open>result.Address\<close> and \<^verbatim>\<open>result.Balance\<close> of each entry with no test for nil, logs
  the error of a write and goes on to the next write. The value is the panic, if one
  ended the loop, the transaction, and the log.

  \<^verbatim>\<open>SyncWallets\<close> as written names no transaction handle: its calls on lines 94, 100,
  104 and 110 do not fit the signatures of the data package, which take and return the
  \<^verbatim>\<open>*sql.Tx\<close>. The loop here is the least repair: it is given the handle that
  \<^verbatim>\<open>StartTransaction\<close> returned, nil when that call failed. The reading of
  \<^verbatim>\<open>result.Address\<close> comes before any call into the data package, so the second
  equation, for a nil entry, does not depend on the handle.
\<close>

fun commitLoop ::
  "driver \<Rightarrow> sqltx option \<Rightarrow> AddressData option list \<Rightarrow> log_entry list
     \<Rightarrow> panic option \<times> sqltx option \<times> log_entry list" where
  "commitLoop d tx [] lg = (None, tx, lg)"
| "commitLoop d tx (None # rest) lg = (Some NilDereference, tx, lg)"
| "commitLoop d None (Some result # rest) lg = (Some NilDereference, None, lg)"
| "commitLoop d (Some t) (Some result # rest) lg =
     (case UpdateBalance d t (Address result) (Balance result) of
        (e1, t1) \<Rightarrow>
          (case UpdateTransactions d t1 result of
             (e2, t2) \<Rightarrow>
               commitLoop d (Some t2) rest
                 (lg @ (case e1 of None \<Rightarrow> [] | Some e \<Rightarrow> [LogBalance (Address result) e])
                     @ (case e2 of None \<Rightarrow> [] | Some e \<Rightarrow> [LogTransactions (Address result) e]))))"

text \<open>
  Lines 93 to 115: begin, the loop, commit; the last line logs success whatever happened.
  A panic ends the process with the transaction open, so the stored tables stay as they were.
\<close>

record sync_result =
  panicked :: "panic option"
  stored :: database
  logged :: "log_entry list"

definition commitPhase ::
  "driver \<Rightarrow> database \<Rightarrow> AddressData option list \<Rightarrow> log_entry list \<Rightarrow> sync_result" where
  "commitPhase d db results lg =
     (case (case StartTransaction d db of
              Inl e \<Rightarrow> (None, lg @ [LogBegin e])
            | Inr t \<Rightarrow> (Some t, lg)) of
        (tx, lg0) \<Rightarrow>
          (case commitLoop d tx results lg0 of
             (Some p, tx', lg1) \<Rightarrow> \<lparr>panicked = Some p, stored = db, logged = lg1\<rparr>
           | (None, None, lg1) \<Rightarrow> \<lparr>panicked = Some NilDereference, stored = db, logged = lg1\<rparr>
           | (None, Some t, lg1) \<Rightarrow>
               (case CommitTransaction d t of
                  (Some e, db') \<Rightarrow>
                    \<lparr>panicked = None, stored = db', logged = lg1 @ [LogCommit e, LogSuccess]\<rparr>
                | (None, db') \<Rightarrow>
                    \<lparr>panicked = None, stored = db', logged = lg1 @ [LogSuccess]\<rparr>)))"

text \<open>
  \<^verbatim>\<open>SyncWallets\<close>. When \<^verbatim>\<open>GetAllAddresses\<close> fails the error is logged and
  \<^verbatim>\<open>len(*addresses)\<close> dereferences the nil pointer it returned. \<open>None\<close> is a run in which
  some fetch never returns.
\<close>

definition SyncWallets ::
  "driver \<Rightarrow> api \<Rightarrow> database \<Rightarrow> (sync_result \<times> (string \<times> int) list) option" where
  "SyncWallets d explorer db =
     (case GetAllAddresses d db of
        Inl e \<Rightarrow>
          Some (\<lparr>panicked = Some NilDereference, stored = db, logged = [LogGetAddresses e]\<rparr>, [])
      | Inr addresses \<Rightarrow>
          (case collect explorer addresses (make_slice (length addresses)) [] [] of
             None \<Rightarrow> None
           | Some (Inl p, lg, reqs) \<Rightarrow> Some (\<lparr>panicked = Some p, stored = db, logged = lg\<rparr>, reqs)
           | Some (Inr results, lg, reqs) \<Rightarrow> Some (commitPhase d db results lg, reqs)))"

section \<open>Notions used to state the properties\<close>

text \<open>
  The tables that statements of the query list can produce from empty tables. Every write
  of the program goes through \<open>exec\<close>, on the stored tables or on the working copy of a
  transaction.
\<close>

inductive reachable :: "database \<Rightarrow> bool" where
  Initialize: "reachable \<lparr>wallet = [], transactions = []\<rparr>"
| Step: "reachable db \<Longrightarrow> exec s db = Some (db', n) \<Longrightarrow> reachable db'"

text \<open>
  The tables without an address and without the transactions that carry it: what the two
  deletes of \<^verbatim>\<open>RemoveAddress\<close> leave.
\<close>

definition without :: "string \<Rightarrow> database \<Rightarrow> database" where
  "without a db =
     db\<lparr>wallet := filter (\<lambda>r. fst r \<noteq> a) (wallet db),
        transactions := filter (\<lambda>r. col_address r \<noteq> a) (transactions db)\<rparr>"

text \<open>
  The request at \<open>offset\<close> is followed by another one: the response has status 200, decodes,
  every record of the page parses, and neither exit test of the loop holds.
\<close>

definition continues :: "api \<Rightarrow> string \<Rightarrow> int \<Rightarrow> bool" where
  "continues explorer address offset =
     (case explorer address limit offset of
        GetError \<Rightarrow> False
      | Response status b \<Rightarrow>
          status = 200 \<and>
          (case b of
             Decoded response \<Rightarrow>
               (case parseRawTxs (resp_Txs response) [] of
                  Inl f \<Rightarrow> False
                | Inr ts \<Rightarrow>
                    \<not> (int (length (resp_Txs response)) < limit
                       \<or> offset + limit \<ge> resp_NTx response))
           | _ \<Rightarrow> False))"

subsection \<open>Concrete inputs\<close>

definition ex_A :: string where
  "ex_A = ''1A1zP1eP5QGefi2DMPTfTL5SLmv7DivfNa''"

definition ex_B :: string where
  "ex_B = ''1BoatSLRHtKNngkdXEeobR76b53LETtpyT''"

definition ex_long :: string where
  "ex_long = ''bc1p5d7rjq7g6rdk2yhzks9smlaqtedr4dekq08ge8ztwac72sfr9rusxg3297''"

definition ex_tx :: Transaction where
  "ex_tx = \<lparr>Index = 5, Hash = ''ab'', Data = ''raw5''\<rparr>"

definition ex_row :: "string \<Rightarrow> tx_row" where
  "ex_row a = \<lparr>col_tx_index = 5, col_hash = ''ab'', col_address = a, col_data = ''raw5''\<rparr>"

definition ex_snapA :: AddressData where
  "ex_snapA = \<lparr>Address = ex_A, Balance = 100, NumTxs = 1, Txs = [ex_tx]\<rparr>"

definition ex_snapB :: AddressData where
  "ex_snapB = \<lparr>Address = ex_B, Balance = 7, NumTxs = 1, Txs = [ex_tx]\<rparr>"


definition ex_db :: database where
  "ex_db = \<lparr>wallet = [(ex_A, 0)], transactions = []\<rparr>"


definition ex_db2 :: database where
  "ex_db2 = \<lparr>wallet = [(ex_A, 0), (ex_B, 0)], transactions = [ex_row ex_A]\<rparr>"

definition ex_good :: RawMessage where
  "ex_good = \<lparr>raw = ''raw5'', parsed = JObject [(''tx_index'', JNumber 5), (''hash'', JString ''ab'')]\<rparr>"

definition ex_no_index :: RawMessage where
  "ex_no_index = \<lparr>raw = ''raw'', parsed = JObject [(''hash'', JString ''ab'')]\<rparr>"

text \<open>An explorer that reports 120 transactions and serves them in full pages.\<close>

definition ex_explorer120 :: api where
  "ex_explorer120 address lim offset =
     Response 200 (Decoded \<lparr>resp_Address = address, resp_NTx = 120, resp_FinalBalance = 100,
       resp_Txs = replicate (nat (min lim (120 - offset))) ex_good\<rparr>)"

text \<open>An explorer that reports 1000 transactions and serves 20.\<close>

definition ex_explorer_short :: api where
  "ex_explorer_short address lim offset =
     Response 200 (Decoded \<lparr>resp_Address = address, resp_NTx = 1000, resp_FinalBalance = 100,
       resp_Txs = replicate 20 ex_good\<rparr>)"

text \<open>
  An explorer whose answer for \<open>ex_A\<close> holds a record with no \<^verbatim>\<open>tx_index\<close>, and whose
  answers for every other address are well-formed.
\<close>

definition ex_explorer_bad :: api where
  "ex_explorer_bad address lim offset =
     Response 200 (Decoded \<lparr>resp_Address = address, resp_NTx = 1, resp_FinalBalance = 100,
       resp_Txs = [if address = ex_A then ex_no_index else ex_good]\<rparr>)"

section \<open>Properties of the store\<close>

lemmas ex_defs = ex_A_def ex_B_def ex_long_def ex_tx_def ex_row_def ex_snapA_def ex_snapB_def
  ex_db_def ex_db2_def

lemmas store_defs = UpdateTransactions_def UpdateBalance_def tx_Exec_def conn_Exec_def
  no_faults_def validateEffectedRows_def

subsection \<open>Row counts\<close>

lemma validate_iff: "validateEffectedRows n op = None \<longleftrightarrow> n = 1"
  by (simp add: validateEffectedRows_def)

lemma count_absent: "a \<notin> fst ` set w \<Longrightarrow> filter (\<lambda>r. fst r = a) w = []"
  by (induction w) auto

lemma count_distinct:
  "distinct (map fst w) \<Longrightarrow> a \<in> fst ` set w \<Longrightarrow> length (filter (\<lambda>r. fst r = a) w) = 1"
  by (induction w) (auto simp: count_absent)

lemma update_absent: "a \<notin> fst ` set w \<Longrightarrow> map (\<lambda>r. if fst r = a then (fst r, b) else r) w = w"
  by (induction w) auto

lemma UpdateBalance_cases:
  "UpdateBalance d t a b =
     (if d (Exec (updateBalaceQuery b a)) then (Some UpdateBalanceFailed, t)
      else (validateEffectedRows (length (filter (\<lambda>r. fst r = a) (wallet (work t)))) ''balance update'',
            t\<lparr>work := (work t)\<lparr>wallet := map (\<lambda>r. if fst r = a then (fst r, b) else r) (wallet (work t))\<rparr>\<rparr>))"
  by (simp add: UpdateBalance_def tx_Exec_def conn_Exec_def)

lemma loop_succeeds:
  "\<forall>x\<in>set xs. \<not> d (Exec (updateTxQuery (Index x) (Hash x) a (Data x))) \<Longrightarrow>
   fst (UpdateTransactions_loop d t a xs) = None"
  by (induction xs arbitrary: t) (auto simp: tx_Exec_def conn_Exec_def split: option.splits)

text \<open>
  Claim C6, amended. \<^verbatim>\<open>UpdateBalance\<close> returns no error only if its statement
  affected exactly one row; when the driver reports no error and the count is not one, it
  returns the row-count error with that count; for an address that is not in the wallet
  table it returns an error (the driver's, or the row-count error with count 0) and leaves
  the transaction as it was. \<^verbatim>\<open>UpdateTransactions\<close> checks no row count: it returns no
  error whenever the driver reports none, whatever number of rows each insert affected.
\<close>

theorem UpdateBalance_row_guard:
  "(fst (UpdateBalance d t a b) = None \<longrightarrow>
      length (filter (\<lambda>r. fst r = a) (wallet (work t))) = 1)
   \<and> (\<not> d (Exec (updateBalaceQuery b a)) \<and> length (filter (\<lambda>r. fst r = a) (wallet (work t))) \<noteq> 1 \<longrightarrow>
      fst (UpdateBalance d t a b) =
        Some (InvalidEffectedRows ''balance update'' (length (filter (\<lambda>r. fst r = a) (wallet (work t))))))
   \<and> (a \<notin> fst ` set (wallet (work t)) \<longrightarrow>
      UpdateBalance d t a b =
        (Some (if d (Exec (updateBalaceQuery b a)) then UpdateBalanceFailed
               else InvalidEffectedRows ''balance update'' 0), t))
   \<and> ((\<forall>x\<in>set (Txs snap). \<not> d (Exec (updateTxQuery (Index x) (Hash x) (Address snap) (Data x)))) \<longrightarrow>
      fst (UpdateTransactions d t snap) = None)"
proof (intro conjI impI)
  assume "fst (UpdateBalance d t a b) = None"
  then show "length (filter (\<lambda>r. fst r = a) (wallet (work t))) = 1"
    by (simp add: UpdateBalance_cases validate_iff split: if_splits)
next
  assume "\<not> d (Exec (updateBalaceQuery b a)) \<and> length (filter (\<lambda>r. fst r = a) (wallet (work t))) \<noteq> 1"
  then show "fst (UpdateBalance d t a b) =
        Some (InvalidEffectedRows ''balance update'' (length (filter (\<lambda>r. fst r = a) (wallet (work t)))))"
    by (simp add: UpdateBalance_cases validateEffectedRows_def)
next
  assume "a \<notin> fst ` set (wallet (work t))"
  then show "UpdateBalance d t a b =
        (Some (if d (Exec (updateBalaceQuery b a)) then UpdateBalanceFailed
               else InvalidEffectedRows ''balance update'' 0), t)"
    by (simp add: UpdateBalance_cases validateEffectedRows_def count_absent update_absent)
next
  assume "\<forall>x\<in>set (Txs snap). \<not> d (Exec (updateTxQuery (Index x) (Hash x) (Address snap) (Data x)))"
  then show "fst (UpdateTransactions d t snap) = None"
    by (simp add: UpdateTransactions_def loop_succeeds)
qed

text \<open>
  C6 as stated fails for \<^verbatim>\<open>UpdateTransactions\<close>: an insert that affects zero rows is not
  an error.
\<close>

theorem upsert_ignores_row_count_counterexample:
  "exec (updateTxQuery (Index ex_tx) (Hash ex_tx) (Address ex_snapB) (Data ex_tx)) ex_db2
     = Some (ex_db2, 0)
   \<and> UpdateTransactions no_faults \<lparr>base = ex_db2, work = ex_db2\<rparr> ex_snapB
     = (None, \<lparr>base = ex_db2, work = ex_db2\<rparr>)"
  by (simp add: ex_defs store_defs)

text \<open>The amended C6 at concrete tables.\<close>

theorem UpdateBalance_row_guard_witness:
  "fst (UpdateBalance no_faults \<lparr>base = ex_db, work = ex_db\<rparr> ex_A 100) = None
   \<and> length (filter (\<lambda>r. fst r = ex_A) (wallet ex_db)) = 1
   \<and> ex_B \<notin> fst ` set (wallet ex_db)
   \<and> UpdateBalance no_faults \<lparr>base = ex_db, work = ex_db\<rparr> ex_B 7
       = (Some (InvalidEffectedRows ''balance update'' 0), \<lparr>base = ex_db, work = ex_db\<rparr>)
   \<and> fst (UpdateTransactions no_faults \<lparr>base = ex_db2, work = ex_db2\<rparr> ex_snapB) = None"
proof -
  have a: "fst (UpdateBalance no_faults \<lparr>base = ex_db, work = ex_db\<rparr> ex_A 100) = None"
    by (simp add: ex_defs store_defs)
  have b: "ex_B \<notin> fst ` set (wallet ex_db)"
    by (simp add: ex_defs)
  have c: "\<forall>x\<in>set (Txs ex_snapB).
      \<not> no_faults (Exec (updateTxQuery (Index x) (Hash x) (Address ex_snapB) (Data x)))"
    by (simp add: no_faults_def)
  have n: "\<not> no_faults (Exec (updateBalaceQuery 7 ex_B))"
    by (simp add: no_faults_def)
  note t1 = UpdateBalance_row_guard [where d = no_faults and t = "\<lparr>base = ex_db, work = ex_db\<rparr>"
      and a = ex_A and b = 100 and snap = ex_snapB]
  note t2 = UpdateBalance_row_guard [where d = no_faults and t = "\<lparr>base = ex_db, work = ex_db\<rparr>"
      and a = ex_B and b = 7 and snap = ex_snapB]
  note t3 = UpdateBalance_row_guard [where d = no_faults and t = "\<lparr>base = ex_db2, work = ex_db2\<rparr>"
      and a = ex_B and b = 7 and snap = ex_snapB]
  from t1 a have "length (filter (\<lambda>r. fst r = ex_A) (wallet ex_db)) = 1" by simp
  moreover from t2 b n have "UpdateBalance no_faults \<lparr>base = ex_db, work = ex_db\<rparr> ex_B 7
       = (Some (InvalidEffectedRows ''balance update'' 0), \<lparr>base = ex_db, work = ex_db\<rparr>)" by simp
  moreover from t3 c have "fst (UpdateTransactions no_faults \<lparr>base = ex_db2, work = ex_db2\<rparr> ex_snapB) = None"
    by blast
  ultimately show ?thesis using a b by blast
qed

subsection \<open>Inserting a transaction again\<close>

lemma tx_Exec_updateTx_present:
  "i \<in> col_tx_index ` set (transactions (work t)) \<Longrightarrow>
   tx_Exec d (updateTxQuery i h a dat) t = (if d (Exec (updateTxQuery i h a dat)) then None else Some (t, 0))"
  by (simp add: tx_Exec_def conn_Exec_def)

lemma tx_Exec_updateTx_keys:
  "tx_Exec d (updateTxQuery i h a dat) t = Some (t', n) \<Longrightarrow>
   col_tx_index ` set (transactions (work t')) = insert i (col_tx_index ` set (transactions (work t)))"
  by (auto simp: tx_Exec_def conn_Exec_def split: if_splits)

lemma loop_keys:
  "UpdateTransactions_loop d t a xs = (None, t') \<Longrightarrow>
   Index ` set xs \<union> col_tx_index ` set (transactions (work t))
     \<subseteq> col_tx_index ` set (transactions (work t'))"
proof (induction xs arbitrary: t)
  case Nil
  then show ?case by simp
next
  case (Cons x xs)
  from Cons.prems obtain t1 n where
    e: "tx_Exec d (updateTxQuery (Index x) (Hash x) a (Data x)) t = Some (t1, n)"
    and l: "UpdateTransactions_loop d t1 a xs = (None, t')"
    by (auto split: option.splits)
  have "col_tx_index ` set (transactions (work t1))
          = insert (Index x) (col_tx_index ` set (transactions (work t)))"
    using e by (rule tx_Exec_updateTx_keys)
  with Cons.IH [OF l] show ?case by auto
qed

lemma loop_noop:
  "Index ` set xs \<subseteq> col_tx_index ` set (transactions (work t)) \<Longrightarrow>
   snd (UpdateTransactions_loop d t a xs) = t"
  by (induction xs) (auto simp: tx_Exec_updateTx_present)

lemma loop_no_fault:
  "UpdateTransactions_loop d t a xs = (None, t') \<Longrightarrow>
   \<forall>x\<in>set xs. \<not> d (Exec (updateTxQuery (Index x) (Hash x) a (Data x)))"
proof (induction xs arbitrary: t)
  case Nil
  then show ?case by simp
next
  case (Cons x xs)
  then show ?case
    by (auto simp: tx_Exec_def conn_Exec_def split: option.splits if_splits)
qed

text \<open>
  Claim C5. The upsert of transactions is idempotent on the index key. In any tables, the
  insert of a transaction whose index is already recorded for its address affects zero rows
  and leaves the tables, and so the stored payload, as they are. When \<^verbatim>\<open>UpdateTransactions\<close>
  has applied a snapshot without error, applying the same snapshot again returns no error
  and leaves the transaction unchanged; whatever the driver does the second time, the
  tables do not change.
\<close>

theorem upsert_idempotent:
  "(\<forall>r\<in>set (transactions db). col_tx_index r = Index x \<and> col_address r = a \<longrightarrow>
      exec (updateTxQuery (Index x) (Hash x) a (Data x)) db = Some (db, 0))
   \<and> (UpdateTransactions d t snap = (None, t') \<longrightarrow>
        UpdateTransactions d t' snap = (None, t')
        \<and> snd (UpdateTransactions d' t' snap) = t')"
proof (intro conjI ballI impI)
  fix r assume "r \<in> set (transactions db)" "col_tx_index r = Index x \<and> col_address r = a"
  then have "Index x \<in> col_tx_index ` set (transactions db)" by force
  then show "exec (updateTxQuery (Index x) (Hash x) a (Data x)) db = Some (db, 0)" by simp
next
  assume h: "UpdateTransactions d t snap = (None, t')"
  then have k: "Index ` set (Txs snap) \<subseteq> col_tx_index ` set (transactions (work t'))"
    using loop_keys [of d t "Address snap" "Txs snap" t'] by (simp add: UpdateTransactions_def)
  from h have f: "\<forall>x\<in>set (Txs snap). \<not> d (Exec (updateTxQuery (Index x) (Hash x) (Address snap) (Data x)))"
    using loop_no_fault [of d t "Address snap" "Txs snap" t'] by (simp add: UpdateTransactions_def)
  show "snd (UpdateTransactions d' t' snap) = t'"
    using k by (simp add: UpdateTransactions_def loop_noop)
  have "snd (UpdateTransactions d t' snap) = t'"
    using k by (simp add: UpdateTransactions_def loop_noop)
  moreover have "fst (UpdateTransactions d t' snap) = None"
    using f by (simp add: UpdateTransactions_def loop_succeeds)
  ultimately show "UpdateTransactions d t' snap = (None, t')"
    by (simp add: prod_eq_iff)
qed

text \<open>The statement of C5 at concrete tables and the snapshot \<open>ex_snapA\<close>.\<close>

theorem upsert_idempotent_witness:
  "ex_row ex_A \<in> set (transactions ex_db2)
   \<and> col_tx_index (ex_row ex_A) = Index ex_tx \<and> col_address (ex_row ex_A) = ex_A
   \<and> exec (updateTxQuery (Index ex_tx) (Hash ex_tx) ex_A (Data ex_tx)) ex_db2 = Some (ex_db2, 0)
   \<and> UpdateTransactions no_faults \<lparr>base = ex_db, work = ex_db\<rparr> ex_snapA
        = (None, \<lparr>base = ex_db, work = ex_db\<lparr>transactions := [ex_row ex_A]\<rparr>\<rparr>)
   \<and> UpdateTransactions no_faults \<lparr>base = ex_db, work = ex_db\<lparr>transactions := [ex_row ex_A]\<rparr>\<rparr> ex_snapA
        = (None, \<lparr>base = ex_db, work = ex_db\<lparr>transactions := [ex_row ex_A]\<rparr>\<rparr>)"
proof -
  have m: "ex_row ex_A \<in> set (transactions ex_db2)"
    "col_tx_index (ex_row ex_A) = Index ex_tx \<and> col_address (ex_row ex_A) = ex_A"
    by (simp_all add: ex_defs)
  have f: "UpdateTransactions no_faults \<lparr>base = ex_db, work = ex_db\<rparr> ex_snapA
        = (None, \<lparr>base = ex_db, work = ex_db\<lparr>transactions := [ex_row ex_A]\<rparr>\<rparr>)"
    by (simp add: ex_defs store_defs)
  note t = upsert_idempotent [where db = ex_db2 and x = ex_tx and a = ex_A and d = no_faults
      and t = "\<lparr>base = ex_db, work = ex_db\<rparr>" and snap = ex_snapA
      and t' = "\<lparr>base = ex_db, work = ex_db\<lparr>transactions := [ex_row ex_A]\<rparr>\<rparr>"]
  from t m f show ?thesis by blast
qed

subsection \<open>The key of the transactions table\<close>

lemma exec_keeps_keys:
  "exec s db = Some (db', n) \<Longrightarrow> distinct (map col_tx_index (transactions db)) \<Longrightarrow>
   distinct (map col_tx_index (transactions db'))"
  by (cases s) (auto simp: distinct_map_filter split: if_splits)

lemma reachable_keys: "reachable db \<Longrightarrow> distinct (map col_tx_index (transactions db))"
  by (induction rule: reachable.induct) (auto dest: exec_keeps_keys)

lemma distinct_filter_le1:
  "distinct (map f xs) \<Longrightarrow> length (filter (\<lambda>r. f r = i) xs) \<le> 1"
proof (induction xs)
  case Nil
  then show ?case by simp
next
  case (Cons x xs)
  show ?case
  proof (cases "f x = i")
    case True
    with Cons.prems have "i \<notin> f ` set xs" by auto
    then have "filter (\<lambda>r. f r = i) xs = []"
      by (auto simp: filter_empty_conv)
    with True show ?thesis by simp
  next
    case False
    with Cons show ?thesis by simp
  qed
qed

text \<open>
  Claim C7, amended. The transaction index is a key of the whole transactions table, not
  of one address's rows. In every reachable state there is at most one row for an index,
  hence at most one for an address and an index; two rows with the same index have the same
  address; and an insert that carries a recorded index is ignored, for whatever address it
  is made.
\<close>

theorem tx_index_unique:
  "reachable db \<Longrightarrow>
   length (filter (\<lambda>r. col_tx_index r = i) (transactions db)) \<le> 1
   \<and> length (filter (\<lambda>r. col_address r = a \<and> col_tx_index r = i) (transactions db)) \<le> 1
   \<and> (\<forall>r\<in>set (transactions db). \<forall>r'\<in>set (transactions db).
        col_tx_index r = col_tx_index r' \<longrightarrow> col_address r = col_address r')
   \<and> (\<forall>r\<in>set (transactions db).
        exec (updateTxQuery (col_tx_index r) h a' dat) db = Some (db, 0))"
proof (intro conjI ballI impI)
  assume r: "reachable db"
  then have d: "distinct (map col_tx_index (transactions db))" by (rule reachable_keys)
  then show l: "length (filter (\<lambda>r. col_tx_index r = i) (transactions db)) \<le> 1"
    by (rule distinct_filter_le1)
  have "length (filter (\<lambda>r. col_address r = a \<and> col_tx_index r = i) (transactions db))
      = length (filter (\<lambda>r. col_address r = a) (filter (\<lambda>r. col_tx_index r = i) (transactions db)))"
    by (simp add: conj_commute)
  also have "\<dots> \<le> length (filter (\<lambda>r. col_tx_index r = i) (transactions db))"
    by (rule length_filter_le)
  finally show "length (filter (\<lambda>r. col_address r = a \<and> col_tx_index r = i) (transactions db)) \<le> 1"
    using l by simp
  fix x y assume "x \<in> set (transactions db)" "y \<in> set (transactions db)"
    "col_tx_index x = col_tx_index y"
  with d have "x = y" by (meson distinct_map inj_onD)
  then show "col_address x = col_address y" by simp
next
  fix x assume "x \<in> set (transactions db)"
  then show "exec (updateTxQuery (col_tx_index x) h a' dat) db = Some (db, 0)" by simp
qed

text \<open>
  C7 as stated fails: with index 5 recorded for \<open>ex_A\<close>, the commit of a snapshot of
  \<open>ex_B\<close> that holds a transaction with index 5 succeeds, stores the balance of \<open>ex_B\<close>,
  and stores no transaction for \<open>ex_B\<close>.
\<close>

theorem second_address_same_index_counterexample:
  "stored (commitPhase no_faults ex_db2 [Some ex_snapB] [])
     = \<lparr>wallet = [(ex_A, 0), (ex_B, 7)], transactions = [ex_row ex_A]\<rparr>
   \<and> logged (commitPhase no_faults ex_db2 [Some ex_snapB] []) = [LogSuccess]
   \<and> Index ex_tx = col_tx_index (ex_row ex_A)
   \<and> filter (\<lambda>r. col_address r = ex_B) [ex_row ex_A] = []"
  by (simp add: ex_defs store_defs commitPhase_def StartTransaction_def conn_Begin_def
      CommitTransaction_def tx_Commit_def)

text \<open>The amended C7 at tables built by three statements from empty ones.\<close>

theorem tx_index_unique_witness:
  "reachable ex_db2
   \<and> length (filter (\<lambda>r. col_tx_index r = 5) (transactions ex_db2)) \<le> 1
   \<and> length (filter (\<lambda>r. col_address r = ex_A \<and> col_tx_index r = 5) (transactions ex_db2)) \<le> 1
   \<and> exec (updateTxQuery 5 ''cd'' ex_B ''other'') ex_db2 = Some (ex_db2, 0)"
proof -
  have r0: "reachable \<lparr>wallet = [], transactions = []\<rparr>"
    by (rule reachable.Initialize)
  have r1: "reachable \<lparr>wallet = [(ex_A, 0)], transactions = []\<rparr>"
    by (rule reachable.Step [OF r0, where s = "insertAddressQuery ex_A" and n = 1]) simp
  have r2: "reachable \<lparr>wallet = [(ex_A, 0), (ex_B, 0)], transactions = []\<rparr>"
    by (rule reachable.Step [OF r1, where s = "insertAddressQuery ex_B" and n = 1])
       (simp add: ex_defs)
  have r3: "reachable ex_db2"
    by (rule reachable.Step [OF r2, where s = "updateTxQuery 5 ''ab'' ex_A ''raw5''" and n = 1])
       (simp add: ex_defs)
  have m: "ex_row ex_A \<in> set (transactions ex_db2)" "col_tx_index (ex_row ex_A) = 5"
    by (simp_all add: ex_defs)
  note t = tx_index_unique [OF r3, where i = 5 and a = ex_A and a' = ex_B and h = "''cd''"
      and dat = "''other''"]
  from t have "\<forall>r\<in>set (transactions ex_db2).
      exec (updateTxQuery (col_tx_index r) ''cd'' ex_B ''other'') ex_db2 = Some (ex_db2, 0)"
    by (rule conjunct2 [THEN conjunct2, THEN conjunct2])
  from this [rule_format, OF m(1)]
  have "exec (updateTxQuery 5 ''cd'' ex_B ''other'') ex_db2 = Some (ex_db2, 0)"
    by (simp only: m(2))
  with t r3 show ?thesis by blast
qed

subsection \<open>Removing an address\<close>

lemma data_RemoveAddress_cases:
  "data_RemoveAddress d db a = (None, without a db) \<and> length (filter (\<lambda>r. fst r = a) (wallet db)) = 1
   \<or> (\<exists>e. data_RemoveAddress d db a = (Some e, db))"
  by (simp add: data_RemoveAddress_def conn_Begin_def tx_Exec_def conn_Exec_def tx_Commit_def
      tx_Rollback_def validateEffectedRows_def without_def)

lemma data_RemoveAddress_ok:
  "\<forall>c. \<not> d c \<Longrightarrow> length (filter (\<lambda>r. fst r = a) (wallet db)) = 1 \<Longrightarrow>
   data_RemoveAddress d db a = (None, without a db)"
  by (simp add: data_RemoveAddress_def conn_Begin_def tx_Exec_def conn_Exec_def tx_Commit_def
      tx_Rollback_def validateEffectedRows_def without_def)

lemma Wallet_RemoveAddress_cases:
  "Wallet_RemoveAddress d db a =
     (if d (Query (checkAddressQuery a)) then (Inl CheckAddressFailed, db)
      else if a \<notin> fst ` set (wallet db) then (Inr False, db)
      else (case data_RemoveAddress d db a of
              (Some e, db') \<Rightarrow> (Inl e, db')
            | (None, db') \<Rightarrow> (Inr True, db')))"
  by (auto simp: Wallet_RemoveAddress_def CheckAddress_def split: prod.splits option.splits)

text \<open>
  Claim C10. \<^verbatim>\<open>RemoveAddress\<close> on an address that is not in the wallet table returns
  false (the not-found outcome) and leaves the tables as they are, provided the existence
  query itself does not fail. Whatever the driver does, the call either returns true, and
  then the address was present and the tables are those without its row and without all
  its transactions, or it returns anything else and the tables are unchanged: no result
  has the row deleted and the transactions kept. With a driver that reports no error and
  an address present in a wallet table with distinct addresses, it returns true. The tables
  without an address hold neither its row nor a transaction of it.
\<close>

theorem RemoveAddress_atomic:
  "(a \<notin> fst ` set (wallet db) \<and> \<not> d (Query (checkAddressQuery a)) \<longrightarrow>
      Wallet_RemoveAddress d db a = (Inr False, db))
   \<and> (fst (Wallet_RemoveAddress d db a) = Inr True \<longrightarrow>
      a \<in> fst ` set (wallet db) \<and> snd (Wallet_RemoveAddress d db a) = without a db)
   \<and> (fst (Wallet_RemoveAddress d db a) \<noteq> Inr True \<longrightarrow> snd (Wallet_RemoveAddress d db a) = db)
   \<and> (a \<in> fst ` set (wallet db) \<and> distinct (map fst (wallet db)) \<and> (\<forall>c. \<not> d c) \<longrightarrow>
      Wallet_RemoveAddress d db a = (Inr True, without a db))
   \<and> a \<notin> fst ` set (wallet (without a db)) \<and> a \<notin> col_address ` set (transactions (without a db))"
proof (intro conjI impI)
  assume "a \<notin> fst ` set (wallet db) \<and> \<not> d (Query (checkAddressQuery a))"
  then show "Wallet_RemoveAddress d db a = (Inr False, db)"
    by (simp add: Wallet_RemoveAddress_def CheckAddress_def)
next
  assume h: "fst (Wallet_RemoveAddress d db a) = Inr True"
  then show "a \<in> fst ` set (wallet db)"
    by (auto simp: Wallet_RemoveAddress_def CheckAddress_def split: if_splits)
  from h show "snd (Wallet_RemoveAddress d db a) = without a db"
    using data_RemoveAddress_cases [of d db a]
    by (auto simp: Wallet_RemoveAddress_cases split: if_splits)
next
  assume "fst (Wallet_RemoveAddress d db a) \<noteq> Inr True"
  then show "snd (Wallet_RemoveAddress d db a) = db"
    using data_RemoveAddress_cases [of d db a]
    by (auto simp: Wallet_RemoveAddress_cases split: if_splits)
next
  assume "a \<in> fst ` set (wallet db) \<and> distinct (map fst (wallet db)) \<and> (\<forall>c. \<not> d c)"
  then show "Wallet_RemoveAddress d db a = (Inr True, without a db)"
    by (simp add: Wallet_RemoveAddress_def CheckAddress_def data_RemoveAddress_ok count_distinct)
next
  show "a \<notin> fst ` set (wallet (without a db))" by (auto simp: without_def)
  show "a \<notin> col_address ` set (transactions (without a db))" by (auto simp: without_def)
qed

text \<open>The statement of C10 at an absent and at a present address.\<close>

theorem RemoveAddress_atomic_witness:
  "ex_B \<notin> fst ` set (wallet ex_db) \<and> \<not> no_faults (Query (checkAddressQuery ex_B))
   \<and> Wallet_RemoveAddress no_faults ex_db ex_B = (Inr False, ex_db)
   \<and> ex_A \<in> fst ` set (wallet ex_db2) \<and> distinct (map fst (wallet ex_db2))
   \<and> Wallet_RemoveAddress no_faults ex_db2 ex_A = (Inr True, \<lparr>wallet = [(ex_B, 0)], transactions = []\<rparr>)"
proof -
  have h: "ex_B \<notin> fst ` set (wallet ex_db) \<and> \<not> no_faults (Query (checkAddressQuery ex_B))"
    by (simp add: ex_defs no_faults_def)
  have k: "ex_A \<in> fst ` set (wallet ex_db2) \<and> distinct (map fst (wallet ex_db2))
      \<and> (\<forall>c. \<not> no_faults c)"
    by (simp add: ex_defs no_faults_def)
  have w: "without ex_A ex_db2 = \<lparr>wallet = [(ex_B, 0)], transactions = []\<rparr>"
    by (simp add: without_def ex_defs)
  note t1 = RemoveAddress_atomic [where a = ex_B and db = ex_db and d = no_faults]
  note t2 = RemoveAddress_atomic [where a = ex_A and db = ex_db2 and d = no_faults]
  from t1 h have "Wallet_RemoveAddress no_faults ex_db ex_B = (Inr False, ex_db)" by blast
  moreover from t2 k have "Wallet_RemoveAddress no_faults ex_db2 ex_A = (Inr True, without ex_A ex_db2)"
    by blast
  ultimately show ?thesis using h k unfolding w by blast
qed

section \<open>Properties of fetching and synchronising\<close>

subsection \<open>Pagination\<close>

lemma parseRawTxs_acc:
  "parseRawTxs rs acc = (case parseRawTxs rs [] of Inl f \<Rightarrow> Inl f | Inr ts \<Rightarrow> Inr (acc @ ts))"
proof (induction rs arbitrary: acc)
  case Nil
  then show ?case by simp
next
  case (Cons r rs)
  show ?case
  proof (cases "parseRawTx r")
    case (Inl f)
    then show ?thesis by simp
  next
    case (Inr t)
    then show ?thesis
      using Cons.IH [of "acc @ [t]"] Cons.IH [of "[t]"]
      by (simp split: sum.splits)
  qed
qed

lemma parseRawTxs_replicate:
  "parseRawTx r = Inr t \<Longrightarrow> parseRawTxs (replicate n r) acc = Inr (acc @ replicate n t)"
  by (induction n arbitrary: acc) (simp_all add: replicate_app_Cons_same)

lemma parseRawTxs_Inr:
  "parseRawTxs rs [] = Inr ts \<Longrightarrow> parseRawTxs rs acc = Inr (acc @ ts)"
  using parseRawTxs_acc [of rs acc] by simp

lemma parseRawTxs_Inl:
  "parseRawTxs rs [] = Inl f \<Longrightarrow> parseRawTxs rs acc = Inl f"
  using parseRawTxs_acc [of rs acc] by simp

lemma fetchLoop_stop:
  assumes "\<not> continues explorer a off"
  shows "\<exists>out. fetchLoop explorer a off data acc reqs = Some (reqs @ [off], out)
         \<and> (\<forall>r ts. explorer a limit off = Response 200 (Decoded r)
               \<and> parseRawTxs (resp_Txs r) [] = Inr ts \<longrightarrow> (\<exists>d. out = Inr d))"
proof (cases "explorer a limit off")
  case GetError
  then show ?thesis by (subst fetchLoop.simps) simp
next
  case (Response status b)
  show ?thesis
  proof (cases "status = 200")
    case False
    with Response show ?thesis by (subst fetchLoop.simps) simp
  next
    case True
    show ?thesis
    proof (cases b)
      case ReadError
      with Response True show ?thesis by (subst fetchLoop.simps) simp
    next
      case Unparseable
      with Response True show ?thesis by (subst fetchLoop.simps) simp
    next
      case (Decoded r)
      show ?thesis
      proof (cases "parseRawTxs (resp_Txs r) []")
        case (Inl f)
        then have "parseRawTxs (resp_Txs r) acc = Inl f" by (rule parseRawTxs_Inl)
        with Response True Decoded Inl show ?thesis
          by (subst fetchLoop.simps) simp
      next
        case (Inr ts)
        then have pa: "parseRawTxs (resp_Txs r) acc = Inr (acc @ ts)" by (rule parseRawTxs_Inr)
        from assms Response True Decoded Inr
        have x: "int (length (resp_Txs r)) < limit \<or> off + limit \<ge> resp_NTx r"
          by (simp add: continues_def)
        with Response True Decoded Inr pa show ?thesis
          by (subst fetchLoop.simps) (simp add: Let_def)
      qed
    qed
  qed
qed

lemma fetchLoop_step:
  assumes "continues explorer a off"
  shows "\<exists>d ts. fetchLoop explorer a off data acc reqs
           = fetchLoop explorer a (off + limit) (Some d) (acc @ ts) (reqs @ [off])"
proof -
  from assms obtain r ts where
    r: "explorer a limit off = Response 200 (Decoded r)"
    and p: "parseRawTxs (resp_Txs r) [] = Inr ts"
    and g: "\<not> (int (length (resp_Txs r)) < limit \<or> off + limit \<ge> resp_NTx r)"
    by (auto simp: continues_def split: http_result.splits body.splits sum.splits)
  from p have pa: "parseRawTxs (resp_Txs r) acc = Inr (acc @ ts)" by (rule parseRawTxs_Inr)
  from r pa g show ?thesis
    by (subst fetchLoop.simps) (auto simp: Let_def)
qed

lemma fetchLoop_run:
  assumes "\<forall>j<k. continues explorer a (off + limit * int j)"
    and "\<not> continues explorer a (off + limit * int k)"
  shows "\<exists>out. fetchLoop explorer a off data acc reqs
           = Some (reqs @ map (\<lambda>j. off + limit * int j) [0..<Suc k], out)
         \<and> (\<forall>r ts. explorer a limit (off + limit * int k) = Response 200 (Decoded r)
               \<and> parseRawTxs (resp_Txs r) [] = Inr ts \<longrightarrow> (\<exists>d. out = Inr d))"
  using assms
proof (induction k arbitrary: off data acc reqs)
  case 0
  then have n: "\<not> continues explorer a off" by simp
  from fetchLoop_stop [OF n, of data acc reqs] show ?case by simp
next
  case (Suc k)
  from Suc.prems(1) have c: "continues explorer a off" by force
  have s: "\<forall>j<k. continues explorer a ((off + limit) + limit * int j)"
  proof (intro allI impI)
    fix j assume "j < k"
    then have "Suc j < Suc k" by simp
    with Suc.prems(1) have q: "continues explorer a (off + limit * int (Suc j))"
      by blast
    have "off + limit * int (Suc j) = (off + limit) + limit * int j"
      by (simp add: algebra_simps)
    with q show "continues explorer a ((off + limit) + limit * int j)"
      by (simp only:)
  qed
  have e: "off + limit * int (Suc k) = off + limit + limit * int k"
    by (simp add: algebra_simps)
  have t: "\<not> continues explorer a ((off + limit) + limit * int k)"
    using Suc.prems(2) unfolding e .
  have m: "map (\<lambda>j. off + limit * int j) [0..<Suc (Suc k)]
      = off # map (\<lambda>j. (off + limit) + limit * int j) [0..<Suc k]"
    by (simp add: map_upt_Suc algebra_simps del: upt_Suc)
  from fetchLoop_step [OF c, of data acc reqs] obtain d ts where
    u: "fetchLoop explorer a off data acc reqs
      = fetchLoop explorer a (off + limit) (Some d) (acc @ ts) (reqs @ [off])"
    by blast
  from Suc.IH [OF s t, of "Some d" "acc @ ts" "reqs @ [off]"]
  show ?case unfolding u m e by simp
qed

text \<open>
  Claim C4. Pagination in \<^verbatim>\<open>fetchAddressData\<close> starts at offset 0 and advances by the
  page size, and it stops at the first page after which the loop does not continue: the
  page that returned fewer records than the page size, or after which the offset has
  reached the reported count, whichever comes first (or the page whose request or parsing
  failed). If every page before the \<open>k\<close>-th is followed by another and the \<open>k\<close>-th is
  not, the call returns, having requested exactly the offsets 0, 50, ..., 50 k in this
  order; it returns the snapshot when the last page decoded and parsed. The offsets stay
  below \<open>2 ^ 63\<close>.
\<close>

theorem pagination:
  assumes "\<forall>j<k. continues explorer address (limit * int j)"
    and "\<not> continues explorer address (limit * int k)"
    and "limit * (int k + 1) < 2 ^ 63"
  shows "\<exists>out. fetchAddressData explorer address = Some (map (\<lambda>j. limit * int j) [0..<Suc k], out)
         \<and> (\<forall>r ts. explorer address limit (limit * int k) = Response 200 (Decoded r)
               \<and> parseRawTxs (resp_Txs r) [] = Inr ts \<longrightarrow> (\<exists>d. out = Inr d))"
  using fetchLoop_run [of k explorer address 0 None "[]" "[]"] assms(1,2)
  by (simp add: fetchAddressData_def)

lemma parse_ex_good: "parseRawTx ex_good = Inr ex_tx"
  by (simp add: parseRawTx_def ex_good_def ex_tx_def)

lemma parse_ex_no_index: "parseRawTx ex_no_index = Inl (Panic InterfaceConversion)"
  by (simp add: parseRawTx_def ex_no_index_def)

lemma fetch_120:
  "fetchAddressData ex_explorer120 a
     = Some ([0, 50, 100], Inr \<lparr>Address = a, Balance = 100, NumTxs = 120, Txs = replicate 120 ex_tx\<rparr>)"
proof -
  have p: "\<And>n acc. parseRawTxs (replicate n ex_good) acc = Inr (acc @ replicate n ex_tx)"
    by (rule parseRawTxs_replicate [OF parse_ex_good])
  have r: "replicate 50 ex_tx @ replicate 50 ex_tx @ replicate 20 ex_tx = replicate 120 ex_tx"
    by (simp add: replicate_add [symmetric])
  show ?thesis
    unfolding fetchAddressData_def
    apply (subst fetchLoop.simps)
    apply (simp add: ex_explorer120_def limit_def p)
    apply (subst fetchLoop.simps)
    apply (simp add: ex_explorer120_def limit_def p)
    apply (subst fetchLoop.simps)
    apply (simp add: ex_explorer120_def limit_def p r)
    done
qed


text \<open>
  C4 at an explorer reporting 120 transactions in full pages, where three pages of 50, 50
  and 20 records are requested at offsets 0, 50 and 100, and at an explorer that reports
  1000 transactions and returns a page of 20, where the one short page ends the run.
\<close>

theorem pagination_witness:
  "continues ex_explorer120 ex_A 0
   \<and> continues ex_explorer120 ex_A 50
   \<and> \<not> continues ex_explorer120 ex_A (limit * int 2)
   \<and> limit * (int 2 + 1) < 2 ^ 63
   \<and> (\<exists>d. fetchAddressData ex_explorer120 ex_A = Some ([0, 50, 100], Inr d))
   \<and> fetchAddressData ex_explorer120 ex_A
       = Some ([0, 50, 100],
               Inr \<lparr>Address = ex_A, Balance = 100, NumTxs = 120, Txs = replicate 120 ex_tx\<rparr>)
   \<and> \<not> continues ex_explorer_short ex_A (limit * int 0)
   \<and> (\<exists>d. fetchAddressData ex_explorer_short ex_A = Some ([0], Inr d))"
proof -
  have c0: "continues ex_explorer120 ex_A 0"
    by (simp add: continues_def ex_explorer120_def limit_def parseRawTxs_replicate [OF parse_ex_good])
  have c1: "continues ex_explorer120 ex_A 50"
    by (simp add: continues_def ex_explorer120_def limit_def parseRawTxs_replicate [OF parse_ex_good])
  have c: "\<forall>j<2. continues ex_explorer120 ex_A (limit * int j)"
  proof (intro allI impI)
    fix j :: nat assume "j < 2"
    then consider "j = 0" | "j = 1" by linarith
    then show "continues ex_explorer120 ex_A (limit * int j)"
      using c0 c1 by cases (simp_all add: limit_def)
  qed
  have n: "\<not> continues ex_explorer120 ex_A (limit * int 2)"
    by (simp add: continues_def ex_explorer120_def limit_def parseRawTxs_replicate [OF parse_ex_good])
  have b: "limit * (int 2 + 1) < 2 ^ 63"
    by (simp add: limit_def)
  have p: "\<exists>ts. parseRawTxs (replicate 20 ex_good) [] = Inr ts"
    by (simp add: parseRawTxs_replicate [OF parse_ex_good])
  have m: "map (\<lambda>j. limit * int j) [0..<Suc 2] = [0, 50, 100]"
    by (simp add: limit_def upt_rec)
  from pagination [OF c n b] p have "\<exists>d. fetchAddressData ex_explorer120 ex_A = Some ([0, 50, 100], Inr d)"
    unfolding m by (auto simp: ex_explorer120_def limit_def)
  moreover
  have n': "\<not> continues ex_explorer_short ex_A (limit * int 0)"
    by (simp add: continues_def ex_explorer_short_def limit_def parseRawTxs_replicate [OF parse_ex_good])
  have e: "\<forall>j<0::nat. continues ex_explorer_short ex_A (limit * int j)" by simp
  have b': "limit * (int 0 + 1) < 2 ^ 63" by (simp add: limit_def)
  from pagination [OF e n' b'] p have "\<exists>d. fetchAddressData ex_explorer_short ex_A = Some ([0], Inr d)"
    by (auto simp: ex_explorer_short_def limit_def)
  ultimately show ?thesis using c0 c1 n b n' fetch_120 [of ex_A] by blast
qed

subsection \<open>Records without an index or a hash\<close>

lemma parseRawTx_panics:
  assumes "unmarshal_map (parsed rawTx) = Some txMap"
    and "(\<forall>i. txMap ''tx_index'' \<noteq> Some (JNumber i)) \<or> (\<forall>h. txMap ''hash'' \<noteq> Some (JString h))"
  shows "parseRawTx rawTx = Inl (Panic InterfaceConversion)"
  using assms by (auto simp: parseRawTx_def split: option.splits json.splits)

lemma fetch_bad_A:
  "fetchAddressData ex_explorer_bad ex_A = Some ([0], Inl (Panic InterfaceConversion))"
  unfolding fetchAddressData_def
  by (subst fetchLoop.simps) (simp add: ex_explorer_bad_def limit_def parse_ex_no_index)

text \<open>
  Claim C2 at a failing input: a record with a hash and no \<^verbatim>\<open>tx_index\<close>. The type
  assertion panics; \<^verbatim>\<open>fetchAddressData\<close> returns neither an error nor a snapshot.
\<close>

theorem missing_index_panics:
  "parsed ex_no_index = JObject [(''hash'', JString ''ab'')]
   \<and> parseRawTx ex_no_index = Inl (Panic InterfaceConversion)
   \<and> fetchAddressData ex_explorer_bad ex_A = Some ([0], Inl (Panic InterfaceConversion))"
  by (simp add: fetch_bad_A parse_ex_no_index) (simp add: ex_no_index_def)

subsection \<open>Adding an address twice\<close>




subsection \<open>One bad address in a pass\<close>



lemma GetAllAddresses_ex_db2: "GetAllAddresses no_faults ex_db2 = Inr [ex_A, ex_B]"
  by (simp add: GetAllAddresses_def no_faults_def ex_db2_def ex_A_def ex_B_def)

lemma collect_returned_errors:
  assumes "\<forall>a\<in>set as. \<exists>offs r. fetchAddressData explorer a = Some (offs, r) \<and> (\<forall>p. r \<noteq> Inl (Panic p))"
  shows "\<exists>reqs'. collect explorer as results lg reqs
    = Some (Inr (results @ map Some (List.map_filter
                   (\<lambda>a. case fetchAddressData explorer a of
                           Some (offs, Inr d) \<Rightarrow> Some d | _ \<Rightarrow> None) as)),
            lg @ List.map_filter
                   (\<lambda>a. case fetchAddressData explorer a of
                           Some (offs, Inl (Err e)) \<Rightarrow> Some (LogBadFetch a e) | _ \<Rightarrow> None) as,
            reqs')"
  using assms
proof (induction as arbitrary: results lg reqs)
  case Nil
  then show ?case by (simp add: List.map_filter_simps)
next
  case (Cons a as)
  from Cons.prems obtain offs r where
    f: "fetchAddressData explorer a = Some (offs, r)" and np: "\<forall>p. r \<noteq> Inl (Panic p)"
    by auto
  from Cons.prems have rest:
    "\<forall>a\<in>set as. \<exists>offs r. fetchAddressData explorer a = Some (offs, r) \<and> (\<forall>p. r \<noteq> Inl (Panic p))"
    by simp
  show ?case
  proof (cases r)
    case (Inl fl)
    with np obtain e where e: "fl = Err e" by (cases fl) auto
    from Cons.IH [OF rest, of results "lg @ [LogBadFetch a e]" "reqs @ map (Pair a) offs"]
    show ?thesis using f Inl e by (simp add: List.map_filter_simps)
  next
    case (Inr d)
    from Cons.IH [OF rest, of "results @ [Some d]" lg "reqs @ map (Pair a) offs"]
    show ?thesis using f Inr by (simp add: List.map_filter_simps)
  qed
qed

text \<open>
  Claim C8 at a failing input: the wallet holds \<open>ex_A\<close> and \<open>ex_B\<close>, and the answer for
  \<open>ex_A\<close> holds a record with no \<^verbatim>\<open>tx_index\<close>. The panic in the fetch of \<open>ex_A\<close>
  ends \<^verbatim>\<open>SyncWallets\<close>: nothing is logged, and no request for \<open>ex_B\<close> is made.
\<close>

theorem bad_record_aborts_sync:
  "GetAllAddresses no_faults ex_db2 = Inr [ex_A, ex_B]
   \<and> SyncWallets no_faults ex_explorer_bad ex_db2
     = Some (\<lparr>panicked = Some InterfaceConversion, stored = ex_db2, logged = []\<rparr>, [(ex_A, 0)])"
  by (simp add: SyncWallets_def GetAllAddresses_ex_db2 make_slice_def fetch_bad_A)

subsection \<open>The slice of results\<close>









subsection \<open>The commit phase\<close>




text \<open>
  The loop itself holds no rollback. On a slice with no nil entry, which \<^verbatim>\<open>SyncWallets\<close>
  never builds, the failed balance update of \<open>ex_B\<close> is logged and the writes for
  \<open>ex_A\<close> are committed.
\<close>

lemma commitPhase_without_nil_entries:
  "commitPhase no_faults ex_db [Some ex_snapA, Some ex_snapB] []
     = \<lparr>panicked = None,
        stored = \<lparr>wallet = [(ex_A, 100)], transactions = [ex_row ex_A]\<rparr>,
        logged = [LogBalance ex_B (InvalidEffectedRows ''balance update'' 0), LogSuccess]\<rparr>"
  by (simp add: ex_defs store_defs commitPhase_def StartTransaction_def conn_Begin_def
      CommitTransaction_def tx_Commit_def)

section \<open>The operations and the reachable tables\<close>

text \<open>
  The tables stored after \<^verbatim>\<open>AddAddress\<close>, \<^verbatim>\<open>RemoveAddress\<close> and the commit phase of
  \<^verbatim>\<open>SyncWallets\<close> are reachable when the tables before are, whatever the driver does.
\<close>

lemma reachable_without: "reachable db \<Longrightarrow> reachable (without a db)"
proof -
  assume r: "reachable db"
  have 1: "exec (removeAddressQuery a) db
      = Some (db\<lparr>wallet := filter (\<lambda>r. fst r \<noteq> a) (wallet db)\<rparr>,
              length (filter (\<lambda>r. fst r = a) (wallet db)))" by simp
  have 2: "exec (removeTxQuery a) (db\<lparr>wallet := filter (\<lambda>r. fst r \<noteq> a) (wallet db)\<rparr>)
      = Some (without a db, length (filter (\<lambda>r. col_address r = a) (transactions db)))"
    by (simp add: without_def)
  from reachable.Step [OF reachable.Step [OF r 1] 2] show ?thesis .
qed

lemma reachable_conn_Exec:
  "reachable db \<Longrightarrow> conn_Exec d s db = Some (db', n) \<Longrightarrow> reachable db'"
  by (auto simp: conn_Exec_def split: if_splits intro: reachable.Step)

lemma reachable_data_AddAddress:
  "reachable db \<Longrightarrow> reachable (snd (data_AddAddress d db a))"
  by (auto simp: data_AddAddress_def split: option.splits dest: reachable_conn_Exec)

lemma reachable_AddAddress:
  assumes "reachable db"
  shows "reachable (fst (snd (Wallet_AddAddress d explorer db a)))"
proof -
  have "fst (snd (Wallet_AddAddress d explorer db a)) = db
      \<or> fst (snd (Wallet_AddAddress d explorer db a)) = snd (data_AddAddress d db a)"
    by (auto simp: Wallet_AddAddress_def split: sum.splits prod.splits option.splits)
  with assms reachable_data_AddAddress [OF assms, of d a] show ?thesis by auto
qed

lemma reachable_RemoveAddress:
  assumes "reachable db"
  shows "reachable (snd (Wallet_RemoveAddress d db a))"
proof -
  have "snd (Wallet_RemoveAddress d db a) = db
      \<or> snd (Wallet_RemoveAddress d db a) = without a db"
    using data_RemoveAddress_cases [of d db a]
    by (auto simp: Wallet_RemoveAddress_cases)
  with assms reachable_without [OF assms, of a] show ?thesis by auto
qed

lemma reachable_tx_Exec:
  "reachable (work t) \<Longrightarrow> tx_Exec d s t = Some (t', n) \<Longrightarrow> reachable (work t') \<and> base t' = base t"
  by (auto simp: tx_Exec_def split: option.splits dest: reachable_conn_Exec)

lemma reachable_UpdateBalance:
  "reachable (work t) \<Longrightarrow> UpdateBalance d t a b = (e, t') \<Longrightarrow> reachable (work t') \<and> base t' = base t"
  by (auto simp: UpdateBalance_def split: option.splits dest: reachable_tx_Exec)

lemma reachable_UpdateTransactions_loop:
  "reachable (work t) \<Longrightarrow> UpdateTransactions_loop d t a xs = (e, t') \<Longrightarrow>
   reachable (work t') \<and> base t' = base t"
proof (induction xs arbitrary: t)
  case Nil
  then show ?case by simp
next
  case (Cons x xs)
  show ?case
  proof (cases "tx_Exec d (updateTxQuery (Index x) (Hash x) a (Data x)) t")
    case None
    with Cons.prems show ?thesis by simp
  next
    case (Some p)
    obtain t1 n where p: "p = (t1, n)" by (cases p)
    from reachable_tx_Exec [OF Cons.prems(1) Some [unfolded p]]
    have r1: "reachable (work t1)" and b1: "base t1 = base t" by simp_all
    from Cons.prems(2) Some p have "UpdateTransactions_loop d t1 a xs = (e, t')" by simp
    from Cons.IH [OF r1 this] b1 show ?thesis by simp
  qed
qed

lemma reachable_commitLoop:
  "reachable (work t) \<Longrightarrow> commitLoop d (Some t) rs lg = (p, Some t', lg') \<Longrightarrow>
   reachable (work t') \<and> base t' = base t"
proof (induction rs arbitrary: t lg)
  case Nil
  then show ?case by simp
next
  case (Cons r rs)
  show ?case
  proof (cases r)
    case None
    with Cons.prems show ?thesis by simp
  next
    case (Some x)
    obtain e1 t1 where u: "UpdateBalance d t (Address x) (Balance x) = (e1, t1)"
      by (cases "UpdateBalance d t (Address x) (Balance x)")
    obtain e2 t2 where v: "UpdateTransactions d t1 x = (e2, t2)"
      by (cases "UpdateTransactions d t1 x")
    from reachable_UpdateBalance [OF Cons.prems(1) u]
    have r1: "reachable (work t1)" and b1: "base t1 = base t" by simp_all
    from reachable_UpdateTransactions_loop [OF r1 v [unfolded UpdateTransactions_def]]
    have r2: "reachable (work t2)" and b2: "base t2 = base t1" by simp_all
    from Cons.prems(2) Some u v obtain lg2 where
      "commitLoop d (Some t2) rs lg2 = (p, Some t', lg')" by simp
    from Cons.IH [OF r2 this] b1 b2 show ?thesis by simp
  qed
qed

lemma commitLoop_None: "commitLoop d None rs lg = (p, tx', lg') \<Longrightarrow> tx' = None"
  by (cases rs) (auto split: option.splits elim: commitLoop.elims)

lemma reachable_commitPhase:
  assumes "reachable db"
  shows "reachable (stored (commitPhase d db rs lg))"
proof (cases "StartTransaction d db")
  case (Inl e)
  obtain p tx' lg1 where c: "commitLoop d None rs (lg @ [LogBegin e]) = (p, tx', lg1)"
    by (cases "commitLoop d None rs (lg @ [LogBegin e])")
  from commitLoop_None [OF c] have "tx' = None" .
  with Inl c assms show ?thesis
    by (cases p) (simp_all add: commitPhase_def)
next
  case (Inr t)
  then have t: "t = \<lparr>base = db, work = db\<rparr>"
    by (simp add: StartTransaction_def conn_Begin_def split: if_splits)
  obtain p tx' lg1 where c: "commitLoop d (Some t) rs lg = (p, tx', lg1)"
    by (cases "commitLoop d (Some t) rs lg")
  show ?thesis
  proof (cases tx')
    case None
    with Inr c assms show ?thesis by (cases p) (simp_all add: commitPhase_def)
  next
    case (Some t')
    from assms t have "reachable (work t)" by simp
    from reachable_commitLoop [OF this c [unfolded Some]] t
    have "reachable (work t')" "base t' = db" by simp_all
    with Inr c Some assms show ?thesis
      by (cases p)
         (auto simp: commitPhase_def CommitTransaction_def tx_Commit_def tx_Rollback_def
            split: prod.splits option.splits)
  qed
qed

end
